theory Spec2Isabelle
  imports Main
begin

section \<open>The scheduler of glacier (scheduler/cron.go)\<close>

text \<open>
  The package keeps a registry of named cron jobs on top of a schedule engine
  (\<^verbatim>\<open>*cron.Cron\<close> of robfig/cron). The engine, its parser, the distributed lock
  manager and the dependency resolver are collaborators that live outside the package:
  the functions below take them as arguments. Instants of \<^verbatim>\<open>time.Time\<close> are integers
  (a count of clock ticks since the zero \<^verbatim>\<open>Time\<close>), \<^verbatim>\<open>cron.EntryID\<close> and Go's
  \<^verbatim>\<open>int\<close> are mathematical integers (the 64-bit counter of entry ids would need
  \<open>2 ^ 63\<close> registrations to wrap), error causes and panic values are strings.
\<close>

subsection \<open>How a Go call ends\<close>

text \<open>
  A call of a Go function with results \<^verbatim>\<open>(T, error)\<close> ends in one of three ways: it
  returns a value with a nil error, it returns a non-nil error, or it panics.
\<close>

datatype ('e, 'a) go = Ok 'a | Error 'e | Panic string

subsection \<open>Job and Job.Next\<close>

type_synonym Time = int
type_synonym EntryID = int

text \<open>
  \<^verbatim>\<open>type Job struct { ID cron.EntryID; Name string; Plan string; handler func(); Paused bool }\<close>.
  The type \<open>'f\<close> is the type of the closures stored in \<^verbatim>\<open>handler\<close>.
\<close>

record 'f Job =
  ID :: EntryID
  Name :: string
  Plan :: string
  handler :: 'f
  Paused :: bool

text \<open>
  \<^verbatim>\<open>make([]time.Time, nextNum)\<close>: the runtime panics when the length is negative and
  when it is more than it allocates. \<open>maxLen\<close> is the largest length for which it does
  not panic (the allocation limit of the platform divided by the size of a
  \<^verbatim>\<open>time.Time\<close>); a length within the limit for which the machine has no memory left is
  not modelled.
\<close>

definition make_times :: "int \<Rightarrow> int \<Rightarrow> (string, Time list) go" where
  "make_times maxLen nextNum =
     (if nextNum < 0 \<or> maxLen < nextNum
      then Panic ''runtime error: makeslice: len out of range''
      else Ok (replicate (nat nextNum) 0))"

text \<open>The limit on a 64-bit platform: \<open>2 ^ 48\<close> bytes, 24 bytes for a \<^verbatim>\<open>time.Time\<close>.\<close>

definition maxLen64 :: int where
  "maxLen64 = 2 ^ 48 div 24"

text \<open>
  The loop \<^verbatim>\<open>for i := 0; i < nextNum; i++ { lastTs = sc.Next(lastTs); results[i] = lastTs }\<close>.
  \<open>nxt\<close> is \<^verbatim>\<open>sc.Next\<close>; an index outside the slice panics, as it does in Go.
\<close>

function Next_loop ::
  "(Time \<Rightarrow> Time) \<Rightarrow> int \<Rightarrow> int \<Rightarrow> Time \<Rightarrow> Time list \<Rightarrow> (string, Time list) go" where
  "Next_loop nxt nextNum i lastTs results =
     (if i < nextNum then
        (let lastTs' = nxt lastTs in
         if 0 \<le> i \<and> nat i < length results
         then Next_loop nxt nextNum (i + 1) lastTs' (results[nat i := lastTs'])
         else Panic ''index out of range'')
      else Ok results)"
  by pat_completeness auto
termination
  by (relation "measure (\<lambda>(nxt, nextNum, i, lastTs, results). nat (nextNum - i))") auto

declare Next_loop.simps [simp del]

text \<open>
  \<^verbatim>\<open>func (job Job) Next(nextNum int) ([]time.Time, error)\<close>. \<open>parse\<close> is
  \<^verbatim>\<open>parser.Parse\<close> of the parser built in the first line (\<open>Inl\<close> its error),
  \<open>sc_next\<close> is the \<^verbatim>\<open>Next\<close> method of the parsed schedule, \<open>now\<close> is the
  value read from \<^verbatim>\<open>time.Now()\<close> and \<open>maxLen\<close> the limit of \<^verbatim>\<open>make\<close>.
\<close>

definition Next ::
  "int \<Rightarrow> (string \<Rightarrow> string + 'sc) \<Rightarrow> ('sc \<Rightarrow> Time \<Rightarrow> Time) \<Rightarrow> Time \<Rightarrow> 'f Job \<Rightarrow> int
     \<Rightarrow> (string, Time list) go" where
  "Next maxLen parse sc_next now job nextNum =
     (case parse (Plan job) of
        Inl err \<Rightarrow> Error err
      | Inr sc \<Rightarrow>
          (case make_times maxLen nextNum of
             Ok results \<Rightarrow> Next_loop (sc_next sc) nextNum 0 now results
           | Error e \<Rightarrow> Error e
           | Panic p \<Rightarrow> Panic p))"

text \<open>
  A sample parser and schedule for concrete runs: the descriptor \<^verbatim>\<open>@every Ns\<close> for
  two values of N, a tick being one second. Everything else is rejected.
\<close>

definition every_parse :: "string \<Rightarrow> string + int" where
  "every_parse plan =
     (if plan = ''@every 5s'' then Inr 5
      else if plan = ''@every 60s'' then Inr 60
      else Inl (''unrecognized descriptor: '' @ plan))"

definition every_next :: "int \<Rightarrow> Time \<Rightarrow> Time" where
  "every_next delay t = t + delay"

text \<open>
  A second sample parser, which also accepts a spec that no time satisfies (the 30th of
  February). The \<^verbatim>\<open>Next\<close> of its schedule returns the zero \<^verbatim>\<open>Time\<close>, which is what
  robfig/cron documents for a schedule that finds no time.
\<close>

datatype sample_schedule = Every int | Never

definition spec_parse :: "string \<Rightarrow> string + sample_schedule" where
  "spec_parse plan =
     (if plan = ''0 0 0 30 2 *'' then Inr Never
      else case every_parse plan of Inl err \<Rightarrow> Inl err | Inr delay \<Rightarrow> Inr (Every delay))"

fun spec_next :: "sample_schedule \<Rightarrow> Time \<Rightarrow> Time" where
  "spec_next (Every delay) t = t + delay"
| "spec_next Never t = 0"

subsection \<open>Errors returned by the registry\<close>

text \<open>
  The error values of the file, by the place that builds them:
  \<^item> \<open>AlreadyExists name id plan\<close> is
    \<^verbatim>\<open>fmt.Errorf("job with name [%s] already existed: %d | %s", name, reg.ID, reg.Plan)\<close>;
  \<^item> \<open>NotFound name\<close> is \<^verbatim>\<open>errors.Errorf("[glacier] job with name [%s] not found", name)\<close>;
  \<^item> \<open>RegistrationFailed cause msg\<close> is \<^verbatim>\<open>errors.Wrap(err, msg)\<close>, \<open>cause\<close> being the
    error of the engine;
  \<^item> \<open>ResolveFailed cause\<close> is an error of \<^verbatim>\<open>c.resolver.Resolve\<close>.
\<close>

datatype error =
    AlreadyExists string EntryID string
  | NotFound string
  | RegistrationFailed string string
  | ResolveFailed string

subsection \<open>The collaborators\<close>

text \<open>
  The schedule engine \<^verbatim>\<open>c.cr\<close>, as the four methods the file calls. \<open>'e\<close> is the
  state of the engine and \<open>'f\<close> the type of the callbacks it is given;
  \<open>cr_AddFunc\<close> returns \<open>Inl\<close> of the error or \<open>Inr\<close> of the new entry id.
\<close>

record ('e, 'f) engine =
  cr_AddFunc :: "string \<Rightarrow> 'f \<Rightarrow> 'e \<Rightarrow> (string + EntryID) \<times> 'e"
  cr_Remove :: "EntryID \<Rightarrow> 'e \<Rightarrow> 'e"
  cr_Start :: "'e \<Rightarrow> 'e"
  cr_Stop :: "'e \<Rightarrow> 'e"

text \<open>
  \<^verbatim>\<open>type DistributeLockManager interface { TryLock() error; TryUnLock() error; HasLock() bool }\<close>
  over a manager with state \<open>'l\<close>; \<open>None\<close> is the nil error.
\<close>

record 'l lock_ops =
  TryLock :: "'l \<Rightarrow> string option \<times> 'l"
  TryUnLock :: "'l \<Rightarrow> string option \<times> 'l"
  HasLock :: "'l \<Rightarrow> bool"

text \<open>
  The two closures of the file that are handed to the engine: \<^verbatim>\<open>jobHandler\<close>, built
  in \<^verbatim>\<open>Add\<close>, which captures \<^verbatim>\<open>name\<close> and the handler \<^verbatim>\<open>hh\<close> (and the
  scheduler \<^verbatim>\<open>c\<close>, which it reads when it runs), and \<^verbatim>\<open>getDistributeLock\<close>,
  built in \<^verbatim>\<open>Start\<close>. \<open>'h\<close> is the type of the handlers \<^verbatim>\<open>hh\<close>: the conversion
  of the \<^verbatim>\<open>handler interface{}\<close> argument to a \<^verbatim>\<open>JobHandler\<close> (lines 146 to 149) is
  done by the caller of the model.
\<close>

datatype 'h func = JobHandlerFn string 'h | GetDistributeLockFn

subsection \<open>The registry\<close>

text \<open>
  \<^verbatim>\<open>type schedulerImpl struct\<close>. The mutex is held for the whole of every
  operation, so each operation is a function from the state before to the state after;
  the resolver is an argument of the functions that use it. The map holds pointers to
  jobs that nothing else refers to, so it is a map to the jobs themselves.
  The \<^verbatim>\<open>log.Debugf\<close> lines of the registry operations change neither state nor result
  and are left out.
\<close>

record ('e, 'l, 'h) schedulerImpl =
  cr :: 'e
  distributeLockManager :: "'l option"
  jobs :: "string \<rightharpoonup> 'h func Job"

definition NewManager :: "'e \<Rightarrow> ('e, 'l, 'h) schedulerImpl" where
  "NewManager cr0 = \<lparr>cr = cr0, distributeLockManager = None, jobs = Map.empty\<rparr>"

definition DistributeLockManager ::
  "'l option \<Rightarrow> ('e, 'l, 'h) schedulerImpl \<Rightarrow> ('e, 'l, 'h) schedulerImpl" where
  "DistributeLockManager lockManager c = c\<lparr>distributeLockManager := lockManager\<rparr>"

definition Add ::
  "('e, 'h func) engine \<Rightarrow> string \<Rightarrow> string \<Rightarrow> 'h \<Rightarrow> ('e, 'l, 'h) schedulerImpl
     \<Rightarrow> error option \<times> ('e, 'l, 'h) schedulerImpl" where
  "Add eng name plan hh c =
     (case jobs c name of
        Some reg \<Rightarrow> (Some (AlreadyExists name (ID reg) (Plan reg)), c)
      | None \<Rightarrow>
          (case cr_AddFunc eng plan (JobHandlerFn name hh) (cr c) of
             (Inl err, e') \<Rightarrow>
               (Some (RegistrationFailed err ''[glacier] add cron job failed''), c\<lparr>cr := e'\<rparr>)
           | (Inr eid, e') \<Rightarrow>
               (None,
                c\<lparr>cr := e',
                  jobs := (jobs c)(name \<mapsto>
                    \<lparr>ID = eid, Name = name, Plan = plan,
                     handler = JobHandlerFn name hh, Paused = False\<rparr>)\<rparr>)))"

text \<open>
  \<open>hook hh\<close> is the error of
  \<^verbatim>\<open>c.resolver.Resolve(func(hook infra.Hook) { hook.OnServerReady(handler) })\<close>.
\<close>

definition AddAndRunOnServerReady ::
  "('e, 'h func) engine \<Rightarrow> ('h \<Rightarrow> string option) \<Rightarrow> string \<Rightarrow> string \<Rightarrow> 'h
     \<Rightarrow> ('e, 'l, 'h) schedulerImpl \<Rightarrow> error option \<times> ('e, 'l, 'h) schedulerImpl" where
  "AddAndRunOnServerReady eng hook name plan hh c =
     (case Add eng name plan hh c of
        (Some err, c') \<Rightarrow> (Some err, c')
      | (None, c') \<Rightarrow> (map_option ResolveFailed (hook hh), c'))"

definition Remove ::
  "('e, 'h func) engine \<Rightarrow> string \<Rightarrow> ('e, 'l, 'h) schedulerImpl
     \<Rightarrow> error option \<times> ('e, 'l, 'h) schedulerImpl" where
  "Remove eng name c =
     (case jobs c name of
        None \<Rightarrow> (Some (NotFound name), c)
      | Some reg \<Rightarrow>
          (let c1 = c\<lparr>jobs := (jobs c)(name := None)\<rparr>
           in (None,
               if \<not> Paused reg then c1\<lparr>cr := cr_Remove eng (ID reg) (cr c1)\<rparr> else c1)))"

definition Pause ::
  "('e, 'h func) engine \<Rightarrow> string \<Rightarrow> ('e, 'l, 'h) schedulerImpl
     \<Rightarrow> error option \<times> ('e, 'l, 'h) schedulerImpl" where
  "Pause eng name c =
     (case jobs c name of
        None \<Rightarrow> (Some (NotFound name), c)
      | Some reg \<Rightarrow>
          if Paused reg then (None, c)
          else (None,
                c\<lparr>cr := cr_Remove eng (ID reg) (cr c),
                  jobs := (jobs c)(name \<mapsto> reg\<lparr>Paused := True\<rparr>)\<rparr>))"

definition Continue ::
  "('e, 'h func) engine \<Rightarrow> string \<Rightarrow> ('e, 'l, 'h) schedulerImpl
     \<Rightarrow> error option \<times> ('e, 'l, 'h) schedulerImpl" where
  "Continue eng name c =
     (case jobs c name of
        None \<Rightarrow> (Some (NotFound name), c)
      | Some reg \<Rightarrow>
          if \<not> Paused reg then (None, c)
          else
            (case cr_AddFunc eng (Plan reg) (handler reg) (cr c) of
               (Inl err, e') \<Rightarrow>
                 (Some (RegistrationFailed err
                    ''[glacier] change job from paused to continue failed''),
                  c\<lparr>cr := e'\<rparr>)
             | (Inr eid, e') \<Rightarrow>
                 (None,
                  c\<lparr>cr := e',
                    jobs := (jobs c)(name \<mapsto> reg\<lparr>Paused := False, ID := eid\<rparr>)\<rparr>)))"

definition Info :: "string \<Rightarrow> ('e, 'l, 'h) schedulerImpl \<Rightarrow> error + 'h func Job" where
  "Info name c = (case jobs c name of Some job \<Rightarrow> Inr job | None \<Rightarrow> Inl (NotFound name))"

text \<open>
  \<^verbatim>\<open>Start\<close>: with a lock manager, one call of \<^verbatim>\<open>getDistributeLock\<close>, then its
  registration every 60 seconds (an error of either is only logged), then the start of
  the engine.
\<close>

definition Start ::
  "('e, 'h func) engine \<Rightarrow> 'l lock_ops \<Rightarrow> ('e, 'l, 'h) schedulerImpl
     \<Rightarrow> ('e, 'l, 'h) schedulerImpl" where
  "Start eng lk c =
     (let c1 =
        (case distributeLockManager c of
           None \<Rightarrow> c
         | Some l \<Rightarrow>
             (let l' = snd (TryLock lk l);
                  e' = snd (cr_AddFunc eng ''@every 60s'' GetDistributeLockFn (cr c))
              in c\<lparr>cr := e', distributeLockManager := Some l'\<rparr>))
      in c1\<lparr>cr := cr_Start eng (cr c1)\<rparr>)"

definition Stop ::
  "('e, 'h func) engine \<Rightarrow> 'l lock_ops \<Rightarrow> ('e, 'l, 'h) schedulerImpl
     \<Rightarrow> ('e, 'l, 'h) schedulerImpl" where
  "Stop eng lk c =
     (let c1 = c\<lparr>cr := cr_Stop eng (cr c)\<rparr>
      in case distributeLockManager c1 of
           None \<Rightarrow> c1
         | Some l \<Rightarrow> c1\<lparr>distributeLockManager := Some (snd (TryUnLock lk l))\<rparr>)"

subsection \<open>The closure \<^verbatim>\<open>jobHandler\<close>\<close>

text \<open>
  How the call \<^verbatim>\<open>c.resolver.ResolveWithError(hh.Handle)\<close> ends: it returns nil, it
  returns an error, or the handler panics with a value.
\<close>

datatype outcome = Succeeded | Failed string | Panicked string

text \<open>How a call of a \<^verbatim>\<open>func()\<close> ends: it returns, or the panic leaves the function.\<close>

datatype ending = Returned | Panicking string

text \<open>
  The lines the closure writes to the log, by their format string: the job name first,
  then the error or the recovered value. The elapsed time and the stack trace that the
  real lines carry are left out.
\<close>

datatype log_line =
    Debugf_no_lock string
  | Debugf_running string
  | Errorf_failed string string
  | Errorf_stopped_with_errors string string
  | Debugf_stopped string

fun is_Errorf :: "log_line \<Rightarrow> bool" where
  "is_Errorf (Errorf_failed name err) = True"
| "is_Errorf (Errorf_stopped_with_errors name v) = True"
| "is_Errorf l = False"

text \<open>
  Go's \<^verbatim>\<open>recover()\<close>, called by a deferred function: given the panic in flight (if
  any) it returns its value and stops the panic.
\<close>

definition recover :: "string option \<Rightarrow> string option \<times> string option" where
  "recover panicking = (panicking, None)"

text \<open>
  One run of the closure: what it did (\<open>invoked\<close>: the handlers it called; \<open>logged\<close>;
  \<open>world\<close>: the state the handler works on, after the run) and how it ended.
\<close>

record ('h, 'w) run =
  ending :: ending
  invoked :: "'h list"
  logged :: "log_line list"
  world :: 'w

text \<open>
  The body of \<^verbatim>\<open>jobHandler\<close> (lines 151 to 176). \<open>DEBUG\<close> is \<^verbatim>\<open>infra.DEBUG\<close>,
  \<open>lk\<close> the methods of the lock manager, \<open>resolveWithError hh w\<close> the outcome of
  \<^verbatim>\<open>c.resolver.ResolveWithError(hh.Handle)\<close> in the world \<open>w\<close> and the world after it.
  The deferred function runs when the body has ended, with the panic of the body in
  flight if there is one.
\<close>

definition jobHandler ::
  "bool \<Rightarrow> 'l lock_ops \<Rightarrow> ('h \<Rightarrow> 'w \<Rightarrow> outcome \<times> 'w) \<Rightarrow> ('e, 'l, 'h) schedulerImpl
     \<Rightarrow> string \<Rightarrow> 'h \<Rightarrow> 'w \<Rightarrow> ('h, 'w) run" where
  "jobHandler DEBUG lk resolveWithError c name hh w =
     (if (case distributeLockManager c of None \<Rightarrow> False | Some l \<Rightarrow> \<not> HasLock lk l) then
        \<lparr>ending = Returned, invoked = [],
         logged = (if DEBUG then [Debugf_no_lock name] else []), world = w\<rparr>
      else
        (let log1 = (if DEBUG then [Debugf_running name] else []);
             (out, w') = resolveWithError hh w;
             (panicking, log2) =
               (case out of
                  Succeeded \<Rightarrow> (None, [])
                | Failed err \<Rightarrow> (None, [Errorf_failed name err])
                | Panicked v \<Rightarrow> (Some v, []));
             (err, panicking') = recover panicking;
             log3 =
               (case err of
                  Some v \<Rightarrow> [Errorf_stopped_with_errors name v]
                | None \<Rightarrow> (if DEBUG then [Debugf_stopped name] else []))
         in \<lparr>ending = (case panicking' of None \<Rightarrow> Returned | Some v \<Rightarrow> Panicking v),
             invoked = [hh], logged = log1 @ log2 @ log3, world = w'\<rparr>))"

text \<open>
  A sequence of triggers of job closures, each with the scheduler as it is when the
  trigger fires. A panic that leaves a closure ends the Go program: no later trigger
  runs.
\<close>

fun triggers ::
  "bool \<Rightarrow> 'l lock_ops \<Rightarrow> ('h \<Rightarrow> 'w \<Rightarrow> outcome \<times> 'w)
     \<Rightarrow> (('e, 'l, 'h) schedulerImpl \<times> string \<times> 'h) list \<Rightarrow> 'w \<Rightarrow> ('h, 'w) run list" where
  "triggers DEBUG lk resolveWithError [] w = []"
| "triggers DEBUG lk resolveWithError ((c, name, hh) # ts) w =
     (let r = jobHandler DEBUG lk resolveWithError c name hh w
      in r # (case ending r of
                Returned \<Rightarrow> triggers DEBUG lk resolveWithError ts (world r)
              | Panicking v \<Rightarrow> []))"

subsection \<open>The engine of robfig/cron\<close>

text \<open>
  The engine the package is written against, as far as the registry uses it: a list of
  entries and the counter of the ids given out. \<^verbatim>\<open>AddFunc\<close> parses the spec and, when it
  parses, increments the counter, appends an entry under the new id and returns the id;
  \<^verbatim>\<open>Remove\<close> drops the entries of an id. The field \<open>calls\<close> records the calls made, in
  order. It serves to state which job has a live registration and to run examples.
\<close>

datatype call = CallAddFunc string | CallRemove EntryID | CallStart | CallStop

record ('sc, 'f) Cron =
  entries :: "(EntryID \<times> 'sc \<times> 'f) list"
  nextID :: EntryID
  running :: bool
  calls :: "call list"

definition cron_New :: "('sc, 'f) Cron" where
  "cron_New = \<lparr>entries = [], nextID = 0, running = False, calls = []\<rparr>"

definition cron_AddFunc ::
  "(string \<Rightarrow> string + 'sc) \<Rightarrow> string \<Rightarrow> 'f \<Rightarrow> ('sc, 'f) Cron
     \<Rightarrow> (string + EntryID) \<times> ('sc, 'f) Cron" where
  "cron_AddFunc parse spec cmd e =
     (let e1 = e\<lparr>calls := calls e @ [CallAddFunc spec]\<rparr>
      in case parse spec of
           Inl err \<Rightarrow> (Inl err, e1)
         | Inr schedule \<Rightarrow>
             (Inr (nextID e1 + 1),
              e1\<lparr>nextID := nextID e1 + 1,
                 entries := entries e1 @ [(nextID e1 + 1, schedule, cmd)]\<rparr>))"

definition cron_Remove :: "EntryID \<Rightarrow> ('sc, 'f) Cron \<Rightarrow> ('sc, 'f) Cron" where
  "cron_Remove eid e =
     e\<lparr>entries := filter (\<lambda>entry. fst entry \<noteq> eid) (entries e),
       calls := calls e @ [CallRemove eid]\<rparr>"

definition robfig :: "(string \<Rightarrow> string + 'sc) \<Rightarrow> (('sc, 'f) Cron, 'f) engine" where
  "robfig parse =
     \<lparr>cr_AddFunc = cron_AddFunc parse,
      cr_Remove = cron_Remove,
      cr_Start = (\<lambda>e. e\<lparr>running := True, calls := calls e @ [CallStart]\<rparr>),
      cr_Stop = (\<lambda>e. e\<lparr>running := False, calls := calls e @ [CallStop]\<rparr>)\<rparr>"

text \<open>The ids of the live entries, and the engines whose entries carry ids given out.\<close>

definition live_ids :: "('sc, 'f) Cron \<Rightarrow> EntryID set" where
  "live_ids e = fst ` set (entries e)"

definition Cron_ok :: "('sc, 'f) Cron \<Rightarrow> bool" where
  "Cron_ok e = list_all (\<lambda>entry. fst entry \<le> nextID e) (entries e)"

subsection \<open>Sequences of operations\<close>

text \<open>
  The public operations of \<^verbatim>\<open>Scheduler\<close>, and the state each leaves behind.
  \<^verbatim>\<open>MustAdd\<close> and \<^verbatim>\<open>MustAddAndRunOnServerReady\<close> call the operation without
  \<^verbatim>\<open>Must\<close> and panic with its error: the state they leave is the state it leaves.
  \<^verbatim>\<open>Info\<close> only reads.
\<close>

datatype ('l, 'h) operation =
    OpAdd string string 'h
  | OpAddAndRunOnServerReady string string 'h
  | OpMustAdd string string 'h
  | OpMustAddAndRunOnServerReady string string 'h
  | OpRemove string
  | OpPause string
  | OpContinue string
  | OpInfo string
  | OpStart
  | OpStop
  | OpDistributeLockManager "'l option"

fun exec ::
  "('e, 'h func) engine \<Rightarrow> 'l lock_ops \<Rightarrow> ('h \<Rightarrow> string option) \<Rightarrow> ('l, 'h) operation
     \<Rightarrow> ('e, 'l, 'h) schedulerImpl \<Rightarrow> ('e, 'l, 'h) schedulerImpl" where
  "exec eng lk hook (OpAdd name plan hh) c = snd (Add eng name plan hh c)"
| "exec eng lk hook (OpAddAndRunOnServerReady name plan hh) c =
     snd (AddAndRunOnServerReady eng hook name plan hh c)"
| "exec eng lk hook (OpMustAdd name plan hh) c = snd (Add eng name plan hh c)"
| "exec eng lk hook (OpMustAddAndRunOnServerReady name plan hh) c =
     snd (AddAndRunOnServerReady eng hook name plan hh c)"
| "exec eng lk hook (OpRemove name) c = snd (Remove eng name c)"
| "exec eng lk hook (OpPause name) c = snd (Pause eng name c)"
| "exec eng lk hook (OpContinue name) c = snd (Continue eng name c)"
| "exec eng lk hook (OpInfo name) c = c"
| "exec eng lk hook OpStart c = Start eng lk c"
| "exec eng lk hook OpStop c = Stop eng lk c"
| "exec eng lk hook (OpDistributeLockManager lockManager) c =
     DistributeLockManager lockManager c"

fun run_ops ::
  "('e, 'h func) engine \<Rightarrow> 'l lock_ops \<Rightarrow> ('h \<Rightarrow> string option) \<Rightarrow> ('l, 'h) operation list
     \<Rightarrow> ('e, 'l, 'h) schedulerImpl \<Rightarrow> ('e, 'l, 'h) schedulerImpl" where
  "run_ops eng lk hook [] c = c"
| "run_ops eng lk hook (x # xs) c = run_ops eng lk hook xs (exec eng lk hook x c)"

text \<open>
  The invariant of the registry over the engine above: every job carries an id that was
  given out, a job is active exactly when its id is live, and two active jobs have
  different ids.
\<close>

definition registry_inv :: "(('sc, 'h func) Cron, 'l, 'h) schedulerImpl \<Rightarrow> bool" where
  "registry_inv c \<longleftrightarrow>
     Cron_ok (cr c) \<and>
     (\<forall>n j. jobs c n = Some j \<longrightarrow> ID j \<le> nextID (cr c)) \<and>
     (\<forall>n j. jobs c n = Some j \<longrightarrow> (\<not> Paused j) = (ID j \<in> live_ids (cr c))) \<and>
     (\<forall>n m j k. jobs c n = Some j \<longrightarrow> jobs c m = Some k \<longrightarrow> n \<noteq> m \<longrightarrow>
        \<not> Paused j \<longrightarrow> \<not> Paused k \<longrightarrow> ID j \<noteq> ID k)"

subsection \<open>Sample collaborators and states for concrete runs\<close>

text \<open>
  An engine with the sample parser, a lock manager whose state is whether it holds the
  lock, handlers that end the way their value says and count the invocations in the
  world, and a hook that succeeds.
\<close>

definition sample_engine :: "((int, outcome func) Cron, outcome func) engine" where
  "sample_engine = robfig every_parse"

definition sample_lock :: "bool lock_ops" where
  "sample_lock =
     \<lparr>TryLock = (\<lambda>l. (None, True)), TryUnLock = (\<lambda>l. (None, False)), HasLock = (\<lambda>l. l)\<rparr>"

definition sample_resolve :: "outcome \<Rightarrow> nat \<Rightarrow> outcome \<times> nat" where
  "sample_resolve hh w = (hh, Suc w)"

definition sample_hook :: "outcome \<Rightarrow> string option" where
  "sample_hook hh = None"

definition sample_manager :: "((int, outcome func) Cron, bool, outcome) schedulerImpl" where
  "sample_manager = NewManager cron_New"

definition sample_job :: "outcome func Job" where
  "sample_job =
     \<lparr>ID = 1, Name = ''a'', Plan = ''@every 5s'',
      handler = JobHandlerFn ''a'' Succeeded, Paused = False\<rparr>"

text \<open>The registry after \<^verbatim>\<open>Add("a", "@every 5s", h)\<close>, and after \<^verbatim>\<open>Pause("a")\<close> then.\<close>

definition sample_active :: "((int, outcome func) Cron, bool, outcome) schedulerImpl" where
  "sample_active =
     \<lparr>cr = \<lparr>entries = [(1, 5, JobHandlerFn ''a'' Succeeded)], nextID = 1, running = False,
             calls = [CallAddFunc ''@every 5s'']\<rparr>,
      distributeLockManager = None,
      jobs = [''a'' \<mapsto> sample_job]\<rparr>"

definition sample_paused :: "((int, outcome func) Cron, bool, outcome) schedulerImpl" where
  "sample_paused =
     \<lparr>cr = \<lparr>entries = [], nextID = 1, running = False,
             calls = [CallAddFunc ''@every 5s'', CallRemove 1]\<rparr>,
      distributeLockManager = None,
      jobs = [''a'' \<mapsto> sample_job\<lparr>Paused := True\<rparr>]\<rparr>"

text \<open>A registry holding a paused job whose plan the sample parser rejects.\<close>

definition sample_stale :: "((int, outcome func) Cron, bool, outcome) schedulerImpl" where
  "sample_stale =
     \<lparr>cr = cron_New,
      distributeLockManager = None,
      jobs = [''a'' \<mapsto> sample_job\<lparr>Plan := ''every 5 seconds'', Paused := True\<rparr>]\<rparr>"

lemmas sample_defs =
  sample_engine_def sample_lock_def sample_resolve_def sample_hook_def sample_manager_def
  sample_job_def sample_active_def sample_paused_def sample_stale_def
  robfig_def cron_AddFunc_def cron_Remove_def cron_New_def NewManager_def every_parse_def
  every_next_def live_ids_def Cron_ok_def maxLen64_def spec_parse_def

section \<open>Properties\<close>

subsection \<open>The sample states are what the operations produce\<close>

lemma sample_active_Add:
  "Add sample_engine ''a'' ''@every 5s'' Succeeded sample_manager = (None, sample_active)"
  by (simp add: Add_def sample_defs)

lemma sample_paused_Pause: "Pause sample_engine ''a'' sample_active = (None, sample_paused)"
  by (simp add: Pause_def sample_defs)

subsection \<open>Adding a name twice\<close>

text \<open>
  C1. \<^verbatim>\<open>Add\<close> with a name that the registry holds, paused or active, fails with the
  already-existed error that names the job's id and plan, and leaves the whole state
  (the job's record and the engine) as it was. In particular after a successful
  \<^verbatim>\<open>Add\<close> the registry holds an active record with the plan given, and a second
  \<^verbatim>\<open>Add\<close> under the name fails and changes nothing.
\<close>

theorem Add_existing_name:
  "(jobs c name = Some reg \<longrightarrow>
      Add eng name plan hh c = (Some (AlreadyExists name (ID reg) (Plan reg)), c)) \<and>
   (Add eng name plan hh c = (None, c1) \<longrightarrow>
      (\<exists>reg1. jobs c1 name = Some reg1 \<and> Plan reg1 = plan \<and> \<not> Paused reg1 \<and>
         Add eng name plan2 hh2 c1 = (Some (AlreadyExists name (ID reg1) plan), c1)))"
  by (auto simp: Add_def split: option.splits sum.splits prod.splits)

theorem Add_existing_name_witness:
  "jobs sample_active ''a'' = Some sample_job \<and>
   Add sample_engine ''a'' ''@every 5s'' Succeeded sample_manager = (None, sample_active) \<and>
   Add sample_engine ''a'' ''@every 60s'' (Panicked ''boom'') sample_active =
     (Some (AlreadyExists ''a'' 1 ''@every 5s''), sample_active) \<and>
   jobs sample_paused ''a'' = Some (sample_job\<lparr>Paused := True\<rparr>) \<and>
   Add sample_engine ''a'' ''@every 60s'' (Panicked ''boom'') sample_paused =
     (Some (AlreadyExists ''a'' 1 ''@every 5s''), sample_paused)"
proof -
  have a: "jobs sample_active ''a'' = Some sample_job"
    by (simp add: sample_active_def)
  have p: "jobs sample_paused ''a'' = Some (sample_job\<lparr>Paused := True\<rparr>)"
    by (simp add: sample_paused_def)
  have i: "ID sample_job = 1" "Plan sample_job = ''@every 5s''"
    by (simp_all add: sample_job_def)
  show ?thesis
    using a p i sample_active_Add
      Add_existing_name[of sample_active "''a''" sample_job sample_engine "''@every 60s''"
        "Panicked ''boom''" sample_active "''@every 60s''" "Panicked ''boom''"]
      Add_existing_name[of sample_paused "''a''" "sample_job\<lparr>Paused := True\<rparr>" sample_engine
        "''@every 60s''" "Panicked ''boom''" sample_paused "''@every 60s''" "Panicked ''boom''"]
      Add_existing_name[of sample_manager "''a''" sample_job sample_engine
        "''@every 5s''" Succeeded sample_active "''@every 60s''" "Panicked ''boom''"]
    by simp
qed

subsection \<open>The closure never panics\<close>

text \<open>
  C2. Whatever the handler does (also when it panics), the closure \<^verbatim>\<open>jobHandler\<close>
  returns: the deferred function recovers the panic. Hence in any sequence of triggers
  every trigger is run, each to a normal return: no run ends the program or keeps a later
  trigger of the same or of another job from running.
\<close>

theorem jobHandler_returns:
  "ending (jobHandler DEBUG lk resolveWithError c name hh w) = Returned \<and>
   length (triggers DEBUG lk resolveWithError ts w) = length ts \<and>
   (\<forall>r \<in> set (triggers DEBUG lk resolveWithError ts w). ending r = Returned)"
proof -
  have one: "\<And>c name hh w. ending (jobHandler DEBUG lk resolveWithError c name hh w) = Returned"
    by (simp add: jobHandler_def recover_def Let_def split: prod.splits outcome.splits)
  have len: "length (triggers DEBUG lk resolveWithError ts w) = length ts"
  proof (induction ts arbitrary: w)
    case Nil
    show ?case by simp
  next
    case (Cons t ts)
    obtain c name hh where t: "t = (c, name, hh)" by (cases t)
    show ?case unfolding t by (simp add: Let_def one Cons.IH)
  qed
  have all: "\<forall>r \<in> set (triggers DEBUG lk resolveWithError ts w). ending r = Returned"
  proof (induction ts arbitrary: w)
    case Nil
    show ?case by simp
  next
    case (Cons t ts)
    obtain c name hh where t: "t = (c, name, hh)" by (cases t)
    show ?case unfolding t by (simp add: Let_def one Cons.IH)
  qed
  show ?thesis using one len all by blast
qed

theorem jobHandler_returns_witness:
  "triggers True sample_lock sample_resolve
     [(sample_active, ''a'', Panicked ''boom''), (sample_active, ''b'', Succeeded),
      (sample_active, ''a'', Panicked ''boom'')] 0 =
     [\<lparr>ending = Returned, invoked = [Panicked ''boom''],
       logged = [Debugf_running ''a'', Errorf_stopped_with_errors ''a'' ''boom''], world = 1\<rparr>,
      \<lparr>ending = Returned, invoked = [Succeeded],
       logged = [Debugf_running ''b'', Debugf_stopped ''b''], world = 2\<rparr>,
      \<lparr>ending = Returned, invoked = [Panicked ''boom''],
       logged = [Debugf_running ''a'', Errorf_stopped_with_errors ''a'' ''boom''], world = 3\<rparr>] \<and>
   ending (jobHandler True sample_lock sample_resolve sample_active ''a'' (Panicked ''boom'') 0)
     = Returned"
  using jobHandler_returns[of True sample_lock sample_resolve sample_active "''a''"
      "Panicked ''boom''" 0
      "[(sample_active, ''a'', Panicked ''boom''), (sample_active, ''b'', Succeeded),
        (sample_active, ''a'', Panicked ''boom'')]"]
  by (simp add: jobHandler_def recover_def Let_def sample_defs)

subsection \<open>Active jobs and live registrations\<close>

text \<open>What the engine's two calls do to the live ids and to the counter.\<close>

lemma live_ids_le: "Cron_ok e \<Longrightarrow> i \<in> live_ids e \<Longrightarrow> i \<le> nextID e"
  by (auto simp: Cron_ok_def live_ids_def list_all_iff)

lemma cron_AddFunc_Inl:
  "cron_AddFunc parse spec cmd e = (Inl err, e') \<Longrightarrow>
   live_ids e' = live_ids e \<and> nextID e' = nextID e \<and> (Cron_ok e \<longrightarrow> Cron_ok e')"
  by (auto simp: cron_AddFunc_def Let_def live_ids_def Cron_ok_def split: sum.splits)

lemma cron_AddFunc_Inr:
  "cron_AddFunc parse spec cmd e = (Inr eid, e') \<Longrightarrow>
   eid = nextID e + 1 \<and> nextID e' = eid \<and> live_ids e' = insert eid (live_ids e) \<and>
   (Cron_ok e \<longrightarrow> Cron_ok e')"
proof -
  assume a: "cron_AddFunc parse spec cmd e = (Inr eid, e')"
  then obtain schedule where p: "parse spec = Inr schedule"
    by (cases "parse spec") (simp_all add: cron_AddFunc_def Let_def)
  define E where "E = e\<lparr>calls := calls e @ [CallAddFunc spec],
      nextID := nextID e + 1, entries := entries e @ [(nextID e + 1, schedule, cmd)]\<rparr>"
  have "cron_AddFunc parse spec cmd e = (Inr (nextID e + 1), E)"
    unfolding cron_AddFunc_def Let_def p E_def by simp
  with a have eid: "eid = nextID e + 1" and e'E: "e' = E" by auto
  have e': "e' = e\<lparr>calls := calls e @ [CallAddFunc spec],
      nextID := nextID e + 1, entries := entries e @ [(nextID e + 1, schedule, cmd)]\<rparr>"
    using e'E unfolding E_def .
  have "Cron_ok e \<longrightarrow> Cron_ok e'"
  proof
    assume "Cron_ok e"
    then have "\<forall>entry \<in> set (entries e). fst entry \<le> nextID e + 1"
      unfolding Cron_ok_def list_all_iff by fastforce
    then show "Cron_ok e'" unfolding e' Cron_ok_def list_all_iff by simp
  qed
  moreover have "live_ids e' = insert eid (live_ids e)"
    unfolding e' eid live_ids_def by auto
  moreover have "nextID e' = eid" unfolding e' eid by simp
  ultimately show ?thesis using eid by blast
qed

lemma cron_AddFunc_keeps:
  assumes ok: "Cron_ok e" and add: "cron_AddFunc parse spec cmd e = (r, e')"
  shows "Cron_ok e' \<and> nextID e \<le> nextID e' \<and>
    (\<forall>i\<le>nextID e. (i \<in> live_ids e') = (i \<in> live_ids e))"
proof (cases r)
  case (Inl err)
  with cron_AddFunc_Inl[of parse spec cmd e err e'] add ok show ?thesis by simp
next
  case (Inr eid)
  with cron_AddFunc_Inr[of parse spec cmd e eid e'] add ok show ?thesis by auto
qed

lemma cron_Remove_facts:
  "live_ids (cron_Remove i e) = live_ids e - {i} \<and> nextID (cron_Remove i e) = nextID e \<and>
   (Cron_ok e \<longrightarrow> Cron_ok (cron_Remove i e))"
  by (auto simp: cron_Remove_def live_ids_def Cron_ok_def list_all_iff)

text \<open>The invariant holds at the start and is kept by each way of changing the state.\<close>

lemma inv_NewManager: "Cron_ok cr0 \<Longrightarrow> registry_inv (NewManager cr0)"
  by (simp add: registry_inv_def NewManager_def)

lemma inv_lock_manager:
  "registry_inv (c\<lparr>distributeLockManager := x\<rparr>) = registry_inv c"
  by (simp add: registry_inv_def)

lemma inv_register:
  assumes inv: "registry_inv c"
    and add: "cron_AddFunc parse spec cmd (cr c) = (Inr eid, e')"
    and free: "\<forall>j. jobs c name = Some j \<longrightarrow> Paused j"
    and new: "ID reg = eid" "\<not> Paused reg"
  shows "registry_inv (c\<lparr>cr := e', jobs := (jobs c)(name \<mapsto> reg)\<rparr>)"
proof -
  from cron_AddFunc_Inr[OF add] inv
  have eid: "eid = nextID (cr c) + 1" and nx: "nextID e' = eid"
    and lv: "live_ids e' = insert eid (live_ids (cr c))" and ok: "Cron_ok e'"
    by (auto simp: registry_inv_def)
  from inv have le: "\<And>n j. jobs c n = Some j \<Longrightarrow> ID j \<le> nextID (cr c)"
    and act: "\<And>n j. jobs c n = Some j \<Longrightarrow> (\<not> Paused j) = (ID j \<in> live_ids (cr c))"
    and dist: "\<And>n m j k. jobs c n = Some j \<Longrightarrow> jobs c m = Some k \<Longrightarrow> n \<noteq> m \<Longrightarrow>
        \<not> Paused j \<Longrightarrow> \<not> Paused k \<Longrightarrow> ID j \<noteq> ID k"
    unfolding registry_inv_def by blast+
  show ?thesis
    unfolding registry_inv_def
  proof (intro conjI allI impI)
    show "Cron_ok (cr (c\<lparr>cr := e', jobs := (jobs c)(name \<mapsto> reg)\<rparr>))" using ok by simp
  next
    fix n j assume "jobs (c\<lparr>cr := e', jobs := (jobs c)(name \<mapsto> reg)\<rparr>) n = Some j"
    then show "ID j \<le> nextID (cr (c\<lparr>cr := e', jobs := (jobs c)(name \<mapsto> reg)\<rparr>))"
      using le[of n j] new nx eid by (auto split: if_splits)
  next
    fix n j assume "jobs (c\<lparr>cr := e', jobs := (jobs c)(name \<mapsto> reg)\<rparr>) n = Some j"
    then show "(\<not> Paused j) =
        (ID j \<in> live_ids (cr (c\<lparr>cr := e', jobs := (jobs c)(name \<mapsto> reg)\<rparr>)))"
      using act[of n j] le[of n j] new lv eid by (auto split: if_splits)
  next
    fix n m j k
    assume "jobs (c\<lparr>cr := e', jobs := (jobs c)(name \<mapsto> reg)\<rparr>) n = Some j"
      "jobs (c\<lparr>cr := e', jobs := (jobs c)(name \<mapsto> reg)\<rparr>) m = Some k"
      "n \<noteq> m" "\<not> Paused j" "\<not> Paused k"
    then show "ID j \<noteq> ID k"
      using dist[of n j m k] le[of n j] le[of m k] new eid by (auto split: if_splits)
  qed
qed

lemma inv_engine_only:
  assumes inv: "registry_inv c"
    and ok: "Cron_ok e'" and nx: "nextID (cr c) \<le> nextID e'"
    and lv: "\<And>n j. jobs c n = Some j \<Longrightarrow> (ID j \<in> live_ids e') = (ID j \<in> live_ids (cr c))"
  shows "registry_inv (c\<lparr>cr := e'\<rparr>)"
  unfolding registry_inv_def
proof (intro conjI allI impI)
  show "Cron_ok (cr (c\<lparr>cr := e'\<rparr>))" using ok by simp
next
  fix n j assume "jobs (c\<lparr>cr := e'\<rparr>) n = Some j"
  then have j: "jobs c n = Some j" by simp
  with inv have "ID j \<le> nextID (cr c)" unfolding registry_inv_def by blast
  then show "ID j \<le> nextID (cr (c\<lparr>cr := e'\<rparr>))" using nx by simp
next
  fix n j assume "jobs (c\<lparr>cr := e'\<rparr>) n = Some j"
  then have j: "jobs c n = Some j" by simp
  with inv have "(\<not> Paused j) = (ID j \<in> live_ids (cr c))" unfolding registry_inv_def by blast
  then show "(\<not> Paused j) = (ID j \<in> live_ids (cr (c\<lparr>cr := e'\<rparr>)))" using lv[OF j] by simp
next
  fix n m j k
  assume "jobs (c\<lparr>cr := e'\<rparr>) n = Some j" "jobs (c\<lparr>cr := e'\<rparr>) m = Some k"
    "n \<noteq> m" "\<not> Paused j" "\<not> Paused k"
  then have "jobs c n = Some j" "jobs c m = Some k" "n \<noteq> m" "\<not> Paused j" "\<not> Paused k"
    by simp_all
  with inv show "ID j \<noteq> ID k" unfolding registry_inv_def by blast
qed

lemma inv_AddFunc_only:
  assumes inv: "registry_inv c" and add: "cron_AddFunc parse spec cmd (cr c) = (r, e')"
  shows "registry_inv (c\<lparr>cr := e'\<rparr>)"
proof -
  from inv have ok: "Cron_ok (cr c)"
    and le: "\<And>n j. jobs c n = Some j \<Longrightarrow> ID j \<le> nextID (cr c)"
    unfolding registry_inv_def by blast+
  from cron_AddFunc_keeps[OF ok add]
  have "Cron_ok e'" "nextID (cr c) \<le> nextID e'"
    and keep: "\<And>i. i \<le> nextID (cr c) \<Longrightarrow> (i \<in> live_ids e') = (i \<in> live_ids (cr c))"
    by blast+
  then show ?thesis using inv le by (intro inv_engine_only) blast+
qed

lemma inv_running:
  assumes inv: "registry_inv c"
  shows "registry_inv (c\<lparr>cr := (cr c)\<lparr>running := b, calls := xs\<rparr>\<rparr>)"
  using inv by (intro inv_engine_only) (simp_all add: registry_inv_def Cron_ok_def live_ids_def)

lemma inv_unregister:
  assumes inv: "registry_inv c" and reg: "jobs c name = Some reg" and act: "\<not> Paused reg"
    and sub: "\<And>n j. m' n = Some j \<Longrightarrow>
        (n \<noteq> name \<and> jobs c n = Some j) \<or> (n = name \<and> j = reg\<lparr>Paused := True\<rparr>)"
  shows "registry_inv (c\<lparr>cr := cron_Remove (ID reg) (cr c), jobs := m'\<rparr>)"
proof -
  from inv have ok: "Cron_ok (cr c)"
    and le: "\<And>n j. jobs c n = Some j \<Longrightarrow> ID j \<le> nextID (cr c)"
    and lv: "\<And>n j. jobs c n = Some j \<Longrightarrow> (\<not> Paused j) = (ID j \<in> live_ids (cr c))"
    and dist: "\<And>n m j k. jobs c n = Some j \<Longrightarrow> jobs c m = Some k \<Longrightarrow> n \<noteq> m \<Longrightarrow>
        \<not> Paused j \<Longrightarrow> \<not> Paused k \<Longrightarrow> ID j \<noteq> ID k"
    unfolding registry_inv_def by blast+
  have rm_live: "live_ids (cron_Remove (ID reg) (cr c)) = live_ids (cr c) - {ID reg}"
    and rm_next: "nextID (cron_Remove (ID reg) (cr c)) = nextID (cr c)"
    and rm_ok: "Cron_ok (cron_Remove (ID reg) (cr c))"
    using cron_Remove_facts[of "ID reg" "cr c"] ok by simp_all
  show ?thesis
    unfolding registry_inv_def
  proof (intro conjI allI impI)
    show "Cron_ok (cr (c\<lparr>cr := cron_Remove (ID reg) (cr c), jobs := m'\<rparr>))"
      using rm_ok by simp
  next
    fix n j assume "jobs (c\<lparr>cr := cron_Remove (ID reg) (cr c), jobs := m'\<rparr>) n = Some j"
    then have "m' n = Some j" by simp
    from sub[OF this] have "ID j \<le> nextID (cr c)"
      using le[of n j] le[OF reg] by auto
    then show "ID j \<le> nextID (cr (c\<lparr>cr := cron_Remove (ID reg) (cr c), jobs := m'\<rparr>))"
      using rm_next by simp
  next
    fix n j assume "jobs (c\<lparr>cr := cron_Remove (ID reg) (cr c), jobs := m'\<rparr>) n = Some j"
    then have "m' n = Some j" by simp
    from sub[OF this] have "(\<not> Paused j) = (ID j \<in> live_ids (cr c) - {ID reg})"
    proof
      assume o: "n \<noteq> name \<and> jobs c n = Some j"
      then have l: "(\<not> Paused j) = (ID j \<in> live_ids (cr c))" using lv by blast
      have "\<not> Paused j \<Longrightarrow> ID j \<noteq> ID reg" using dist[of n j name reg] o reg act by blast
      with l show ?thesis by blast
    next
      assume "n = name \<and> j = reg\<lparr>Paused := True\<rparr>"
      then show ?thesis by simp
    qed
    then show "(\<not> Paused j) =
        (ID j \<in> live_ids (cr (c\<lparr>cr := cron_Remove (ID reg) (cr c), jobs := m'\<rparr>)))"
      using rm_live by simp
  next
    fix n m j k
    assume "jobs (c\<lparr>cr := cron_Remove (ID reg) (cr c), jobs := m'\<rparr>) n = Some j"
      "jobs (c\<lparr>cr := cron_Remove (ID reg) (cr c), jobs := m'\<rparr>) m = Some k"
      and nm: "n \<noteq> m" and pj: "\<not> Paused j" and pk: "\<not> Paused k"
    then have "m' n = Some j" "m' m = Some k" by simp_all
    from sub[OF this(1)] sub[OF this(2)] pj pk
    have "jobs c n = Some j" "jobs c m = Some k" by auto
    then show "ID j \<noteq> ID k" using dist nm pj pk by blast
  qed
qed

lemma inv_drop_paused:
  assumes inv: "registry_inv c"
  shows "registry_inv (c\<lparr>jobs := (jobs c)(name := None)\<rparr>)"
proof -
  from inv have ok: "Cron_ok (cr c)"
    and le: "\<And>n j. jobs c n = Some j \<Longrightarrow> ID j \<le> nextID (cr c)"
    and lv: "\<And>n j. jobs c n = Some j \<Longrightarrow> (\<not> Paused j) = (ID j \<in> live_ids (cr c))"
    and dist: "\<And>n m j k. jobs c n = Some j \<Longrightarrow> jobs c m = Some k \<Longrightarrow> n \<noteq> m \<Longrightarrow>
        \<not> Paused j \<Longrightarrow> \<not> Paused k \<Longrightarrow> ID j \<noteq> ID k"
    unfolding registry_inv_def by blast+
  show ?thesis
    unfolding registry_inv_def
  proof (intro conjI allI impI)
    show "Cron_ok (cr (c\<lparr>jobs := (jobs c)(name := None)\<rparr>))" using ok by simp
  next
    fix n j assume "jobs (c\<lparr>jobs := (jobs c)(name := None)\<rparr>) n = Some j"
    then show "ID j \<le> nextID (cr (c\<lparr>jobs := (jobs c)(name := None)\<rparr>))"
      using le[of n j] by (simp split: if_splits)
  next
    fix n j assume "jobs (c\<lparr>jobs := (jobs c)(name := None)\<rparr>) n = Some j"
    then show "(\<not> Paused j) = (ID j \<in> live_ids (cr (c\<lparr>jobs := (jobs c)(name := None)\<rparr>)))"
      using lv[of n j] by (simp split: if_splits)
  next
    fix n m j k
    assume "jobs (c\<lparr>jobs := (jobs c)(name := None)\<rparr>) n = Some j"
      "jobs (c\<lparr>jobs := (jobs c)(name := None)\<rparr>) m = Some k"
      "n \<noteq> m" "\<not> Paused j" "\<not> Paused k"
    then show "ID j \<noteq> ID k"
      using dist[of n j m k] by (simp split: if_splits)
  qed
qed

text \<open>Each operation of the registry keeps the invariant.\<close>

lemma inv_Add:
  assumes inv: "registry_inv c"
  shows "registry_inv (snd (Add (robfig parse) name plan hh c))"
proof (cases "jobs c name")
  case (Some reg)
  then show ?thesis using inv by (simp add: Add_def)
next
  case None
  obtain r e' where add: "cron_AddFunc parse plan (JobHandlerFn name hh) (cr c) = (r, e')"
    by (cases "cron_AddFunc parse plan (JobHandlerFn name hh) (cr c)")
  show ?thesis
  proof (cases r)
    case (Inl err)
    have "registry_inv (c\<lparr>cr := e'\<rparr>)" using inv add by (rule inv_AddFunc_only)
    then show ?thesis using None add Inl by (simp add: Add_def robfig_def)
  next
    case (Inr eid)
    have "registry_inv (c\<lparr>cr := e', jobs := (jobs c)(name \<mapsto>
        \<lparr>ID = eid, Name = name, Plan = plan, handler = JobHandlerFn name hh,
         Paused = False\<rparr>)\<rparr>)"
      using inv add[unfolded Inr] None by (intro inv_register) simp_all
    then show ?thesis using None add Inr by (simp add: Add_def robfig_def)
  qed
qed

lemma inv_Continue:
  assumes inv: "registry_inv c"
  shows "registry_inv (snd (Continue (robfig parse) name c))"
proof (cases "jobs c name")
  case None
  then show ?thesis using inv by (simp add: Continue_def)
next
  case (Some reg)
  show ?thesis
  proof (cases "Paused reg")
    case False
    then show ?thesis using inv Some by (simp add: Continue_def)
  next
    case True
    obtain r e' where add: "cron_AddFunc parse (Plan reg) (handler reg) (cr c) = (r, e')"
      by (cases "cron_AddFunc parse (Plan reg) (handler reg) (cr c)")
    show ?thesis
    proof (cases r)
      case (Inl err)
      have "registry_inv (c\<lparr>cr := e'\<rparr>)" using inv add by (rule inv_AddFunc_only)
      then show ?thesis using Some True add Inl by (simp add: Continue_def robfig_def)
    next
      case (Inr eid)
      have "registry_inv
          (c\<lparr>cr := e', jobs := (jobs c)(name \<mapsto> reg\<lparr>Paused := False, ID := eid\<rparr>)\<rparr>)"
        using inv add[unfolded Inr] Some True by (intro inv_register) simp_all
      then show ?thesis using Some True add Inr by (simp add: Continue_def robfig_def)
    qed
  qed
qed

lemma jobs_cr_update: "c\<lparr>jobs := m, cr := x\<rparr> = c\<lparr>cr := x, jobs := m\<rparr>"
  by simp

lemma inv_Remove:
  assumes inv: "registry_inv c"
  shows "registry_inv (snd (Remove (robfig parse) name c))"
proof (cases "jobs c name")
  case None
  then show ?thesis using inv by (simp add: Remove_def)
next
  case (Some reg)
  show ?thesis
  proof (cases "Paused reg")
    case True
    then show ?thesis using inv_drop_paused[OF inv, of name] Some
      by (simp add: Remove_def Let_def)
  next
    case False
    have "registry_inv
        (c\<lparr>cr := cron_Remove (ID reg) (cr c), jobs := (jobs c)(name := None)\<rparr>)"
      using inv Some False by (rule inv_unregister) (simp split: if_splits)
    then show ?thesis using Some False
      by (simp add: Remove_def Let_def robfig_def jobs_cr_update)
  qed
qed

lemma inv_Pause:
  assumes inv: "registry_inv c"
  shows "registry_inv (snd (Pause (robfig parse) name c))"
proof (cases "jobs c name")
  case None
  then show ?thesis using inv by (simp add: Pause_def)
next
  case (Some reg)
  show ?thesis
  proof (cases "Paused reg")
    case True
    then show ?thesis using inv Some by (simp add: Pause_def)
  next
    case False
    have "registry_inv (c\<lparr>cr := cron_Remove (ID reg) (cr c),
        jobs := (jobs c)(name \<mapsto> reg\<lparr>Paused := True\<rparr>)\<rparr>)"
      using inv Some False by (rule inv_unregister) (auto split: if_splits)
    then show ?thesis using Some False by (simp add: Pause_def robfig_def)
  qed
qed

lemma inv_Start:
  assumes inv: "registry_inv c"
  shows "registry_inv (Start (robfig parse) lk c)"
proof (cases "distributeLockManager c")
  case None
  then show ?thesis
    using inv_running[OF inv, where b = True and xs = "calls (cr c) @ [CallStart]"]
    by (simp add: Start_def robfig_def)
next
  case (Some l)
  obtain r e' where add: "cron_AddFunc parse ''@every 60s'' GetDistributeLockFn (cr c) = (r, e')"
    by (cases "cron_AddFunc parse ''@every 60s'' GetDistributeLockFn (cr c)")
  have "registry_inv (c\<lparr>cr := e'\<rparr>)" using inv add by (rule inv_AddFunc_only)
  then have "registry_inv (c\<lparr>cr := e', distributeLockManager := Some (snd (TryLock lk l))\<rparr>)"
    using inv_lock_manager[where c = "c\<lparr>cr := e'\<rparr>"] by simp
  from inv_running[OF this, where b = True and xs = "calls e' @ [CallStart]"]
  show ?thesis using Some add by (simp add: Start_def robfig_def Let_def)
qed

lemma inv_Stop:
  assumes inv: "registry_inv c"
  shows "registry_inv (Stop (robfig parse) lk c)"
proof -
  have a: "registry_inv
      (c\<lparr>cr := (cr c)\<lparr>running := False, calls := calls (cr c) @ [CallStop]\<rparr>\<rparr>)"
    using inv by (rule inv_running)
  show ?thesis
  proof (cases "distributeLockManager c")
    case None
    then show ?thesis using a by (simp add: Stop_def robfig_def Let_def)
  next
    case (Some l)
    then show ?thesis using a
        inv_lock_manager[where c =
          "c\<lparr>cr := (cr c)\<lparr>running := False, calls := calls (cr c) @ [CallStop]\<rparr>\<rparr>"]
      by (simp add: Stop_def robfig_def Let_def)
  qed
qed

lemma snd_AddAndRunOnServerReady:
  "snd (AddAndRunOnServerReady eng hook name plan hh c) = snd (Add eng name plan hh c)"
  by (simp add: AddAndRunOnServerReady_def split: prod.splits option.splits)

lemma inv_exec:
  assumes inv: "registry_inv c"
  shows "registry_inv (exec (robfig parse) lk hook x c)"
proof (cases x)
  case (OpDistributeLockManager lockManager)
  then show ?thesis using inv by (simp add: DistributeLockManager_def inv_lock_manager)
qed (simp_all add: inv snd_AddAndRunOnServerReady inv_Add inv_Remove inv_Pause inv_Continue
    inv_Start inv_Stop)

lemma inv_run_ops:
  "registry_inv c \<Longrightarrow> registry_inv (run_ops (robfig parse) lk hook xs c)"
  by (induction xs arbitrary: c) (simp_all add: inv_exec)

text \<open>
  C3. As stated the claim fails: \<^verbatim>\<open>Pause\<close> sets \<^verbatim>\<open>Paused\<close> and leaves \<^verbatim>\<open>ID\<close> as it
  is, so the record of a paused job still carries the handle of its last registration,
  and \<^verbatim>\<open>Info\<close> shows it. Here the job gets the id 1 when it is added and shows the id 1
  when it is paused.
\<close>

theorem paused_job_keeps_ID_counterexample:
  "Info ''a'' (snd (Add sample_engine ''a'' ''@every 5s'' Succeeded sample_manager)) =
     Inr \<lparr>ID = 1, Name = ''a'', Plan = ''@every 5s'',
          handler = JobHandlerFn ''a'' Succeeded, Paused = False\<rparr> \<and>
   Info ''a'' (snd (Pause sample_engine ''a''
       (snd (Add sample_engine ''a'' ''@every 5s'' Succeeded sample_manager)))) =
     Inr \<lparr>ID = 1, Name = ''a'', Plan = ''@every 5s'',
          handler = JobHandlerFn ''a'' Succeeded, Paused = True\<rparr>"
  by (simp add: Info_def Add_def Pause_def sample_defs)

text \<open>
  C3, amended. After any sequence of operations on a new registry, over an engine whose
  entries carry ids it has given out, the id in a job's record is the id of a live entry
  of the engine if and only if the job is not paused: the id of a paused job is one the
  engine no longer holds.
\<close>

theorem active_iff_live:
  assumes "Cron_ok cr0"
    and "jobs (run_ops (robfig parse) lk hook xs (NewManager cr0)) name = Some job"
  shows "(\<not> Paused job) =
    (ID job \<in> live_ids (cr (run_ops (robfig parse) lk hook xs (NewManager cr0))))"
proof -
  have "registry_inv (run_ops (robfig parse) lk hook xs (NewManager cr0))"
    using assms(1) by (intro inv_run_ops inv_NewManager)
  then show ?thesis using assms(2) unfolding registry_inv_def by blast
qed

theorem active_iff_live_witness:
  "Cron_ok (cron_New :: (int, outcome func) Cron) \<and>
   jobs (run_ops (robfig every_parse) sample_lock sample_hook
      [OpAdd ''a'' ''@every 5s'' Succeeded, OpAdd ''b'' ''@every 60s'' Succeeded, OpPause ''a'']
      (NewManager cron_New)) ''a'' =
     Some \<lparr>ID = 1, Name = ''a'', Plan = ''@every 5s'',
           handler = JobHandlerFn ''a'' Succeeded, Paused = True\<rparr> \<and>
   live_ids (cr (run_ops (robfig every_parse) sample_lock sample_hook
      [OpAdd ''a'' ''@every 5s'' Succeeded, OpAdd ''b'' ''@every 60s'' Succeeded, OpPause ''a'']
      (NewManager (cron_New :: (int, outcome func) Cron)))) = {2}"
  using active_iff_live[of "cron_New :: (int, outcome func) Cron" every_parse sample_lock
      sample_hook
      "[OpAdd ''a'' ''@every 5s'' Succeeded, OpAdd ''b'' ''@every 60s'' Succeeded, OpPause ''a'']"
      "''a''"
      "\<lparr>ID = 1, Name = ''a'', Plan = ''@every 5s'',
           handler = JobHandlerFn ''a'' Succeeded, Paused = True\<rparr>"]
  by (simp add: Add_def Pause_def sample_defs)

subsection \<open>A registration that the engine rejects\<close>

text \<open>
  C4. When the engine rejects the registration, \<^verbatim>\<open>Add\<close> and \<^verbatim>\<open>Continue\<close> return the
  engine's error wrapped, and the map of jobs is as before: \<^verbatim>\<open>Add\<close> has inserted no
  record under the name, and after \<^verbatim>\<open>Continue\<close> the job is still there, paused. The
  only part of the state that may differ is the engine, as its own call left it.
\<close>

theorem registration_rejected:
  "(jobs c name = None \<longrightarrow>
    cr_AddFunc eng plan (JobHandlerFn name hh) (cr c) = (Inl cause, e') \<longrightarrow>
      Add eng name plan hh c =
        (Some (RegistrationFailed cause ''[glacier] add cron job failed''), c\<lparr>cr := e'\<rparr>) \<and>
      jobs (snd (Add eng name plan hh c)) = jobs c \<and>
      jobs (snd (Add eng name plan hh c)) name = None) \<and>
   (jobs c name = Some reg \<longrightarrow> Paused reg \<longrightarrow>
    cr_AddFunc eng (Plan reg) (handler reg) (cr c) = (Inl cause, e') \<longrightarrow>
      Continue eng name c =
        (Some (RegistrationFailed cause
           ''[glacier] change job from paused to continue failed''), c\<lparr>cr := e'\<rparr>) \<and>
      jobs (snd (Continue eng name c)) = jobs c \<and>
      jobs (snd (Continue eng name c)) name = Some reg)"
  by (simp add: Add_def Continue_def)

theorem registration_rejected_witness:
  "jobs sample_active ''b'' = None \<and>
   cr_AddFunc sample_engine ''every 5 seconds'' (JobHandlerFn ''b'' Succeeded) (cr sample_active) =
     (Inl ''unrecognized descriptor: every 5 seconds'',
      (cr sample_active)\<lparr>calls := [CallAddFunc ''@every 5s'', CallAddFunc ''every 5 seconds'']\<rparr>) \<and>
   fst (Add sample_engine ''b'' ''every 5 seconds'' Succeeded sample_active) =
     Some (RegistrationFailed ''unrecognized descriptor: every 5 seconds''
       ''[glacier] add cron job failed'') \<and>
   jobs (snd (Add sample_engine ''b'' ''every 5 seconds'' Succeeded sample_active)) =
     jobs sample_active \<and>
   entries (cr (snd (Add sample_engine ''b'' ''every 5 seconds'' Succeeded sample_active))) =
     entries (cr sample_active) \<and>
   jobs sample_stale ''a'' =
     Some (sample_job\<lparr>Plan := ''every 5 seconds'', Paused := True\<rparr>) \<and>
   fst (Continue sample_engine ''a'' sample_stale) =
     Some (RegistrationFailed ''unrecognized descriptor: every 5 seconds''
       ''[glacier] change job from paused to continue failed'') \<and>
   jobs (snd (Continue sample_engine ''a'' sample_stale)) = jobs sample_stale"
proof -
  have b: "jobs sample_active ''b'' = None"
    by (simp add: sample_active_def)
  have add: "cr_AddFunc sample_engine ''every 5 seconds'' (JobHandlerFn ''b'' Succeeded)
      (cr sample_active) =
     (Inl ''unrecognized descriptor: every 5 seconds'',
      (cr sample_active)\<lparr>calls := [CallAddFunc ''@every 5s'', CallAddFunc ''every 5 seconds'']\<rparr>)"
    by (simp add: sample_defs)
  have a: "jobs sample_stale ''a'' =
      Some (sample_job\<lparr>Plan := ''every 5 seconds'', Paused := True\<rparr>)"
    by (simp add: sample_stale_def)
  have cont: "cr_AddFunc sample_engine
      (Plan (sample_job\<lparr>Plan := ''every 5 seconds'', Paused := True\<rparr>))
      (handler (sample_job\<lparr>Plan := ''every 5 seconds'', Paused := True\<rparr>)) (cr sample_stale) =
     (Inl ''unrecognized descriptor: every 5 seconds'',
      (cr sample_stale)\<lparr>calls := [CallAddFunc ''every 5 seconds'']\<rparr>)"
    by (simp add: sample_defs)
  show ?thesis
    using b add a cont
      registration_rejected[of sample_active "''b''" sample_engine "''every 5 seconds''"
        Succeeded "''unrecognized descriptor: every 5 seconds''"
        "(cr sample_active)\<lparr>calls := [CallAddFunc ''@every 5s'', CallAddFunc ''every 5 seconds'']\<rparr>"
        sample_job]
      registration_rejected[of sample_stale "''a''" sample_engine "''every 5 seconds''"
        Succeeded "''unrecognized descriptor: every 5 seconds''"
        "(cr sample_stale)\<lparr>calls := [CallAddFunc ''every 5 seconds'']\<rparr>"
        "sample_job\<lparr>Plan := ''every 5 seconds'', Paused := True\<rparr>"]
    by simp
qed

subsection \<open>Removing a job\<close>

text \<open>
  C5. \<^verbatim>\<open>Remove\<close> of a name the registry does not hold fails with the not-found error
  and changes nothing. Otherwise it succeeds and deletes the record; the engine is as
  \<^verbatim>\<open>c.cr.Remove(reg.ID)\<close> leaves it when the job was active and is untouched when the
  job was paused. Over the engine that records its calls, the calls made are one
  \<^verbatim>\<open>Remove\<close> of the job's id for an active job and none for a paused one.
\<close>

theorem Remove_spec:
  "(jobs c name = None \<longrightarrow> Remove eng name c = (Some (NotFound name), c)) \<and>
   (jobs c name = Some reg \<longrightarrow>
      fst (Remove eng name c) = None \<and>
      jobs (snd (Remove eng name c)) = (jobs c)(name := None) \<and>
      distributeLockManager (snd (Remove eng name c)) = distributeLockManager c \<and>
      cr (snd (Remove eng name c)) =
        (if Paused reg then cr c else cr_Remove eng (ID reg) (cr c))) \<and>
   (jobs d name = Some reg' \<longrightarrow>
      calls (cr (snd (Remove (robfig parse) name d))) =
        calls (cr d) @ (if Paused reg' then [] else [CallRemove (ID reg')]))"
  by (simp add: Remove_def Let_def robfig_def cron_Remove_def)

theorem Remove_spec_witness:
  "jobs sample_active ''b'' = None \<and>
   Remove sample_engine ''b'' sample_active = (Some (NotFound ''b''), sample_active) \<and>
   jobs sample_active ''a'' = Some sample_job \<and> \<not> Paused sample_job \<and>
   Remove sample_engine ''a'' sample_active =
     (None, sample_active\<lparr>jobs := Map.empty,
        cr := \<lparr>entries = [], nextID = 1, running = False,
               calls = [CallAddFunc ''@every 5s'', CallRemove 1]\<rparr>\<rparr>) \<and>
   jobs sample_paused ''a'' = Some (sample_job\<lparr>Paused := True\<rparr>) \<and>
   Remove sample_engine ''a'' sample_paused = (None, sample_paused\<lparr>jobs := Map.empty\<rparr>) \<and>
   calls (cr (snd (Remove sample_engine ''a'' sample_paused))) = calls (cr sample_paused)"
proof -
  have b: "jobs sample_active ''b'' = None"
    and a: "jobs sample_active ''a'' = Some sample_job"
    by (simp_all add: sample_active_def)
  have p: "jobs sample_paused ''a'' = Some (sample_job\<lparr>Paused := True\<rparr>)"
    by (simp add: sample_paused_def)
  have r1: "Remove sample_engine ''a'' sample_active =
     (None, sample_active\<lparr>jobs := Map.empty,
        cr := \<lparr>entries = [], nextID = 1, running = False,
               calls = [CallAddFunc ''@every 5s'', CallRemove 1]\<rparr>\<rparr>)"
    by (simp add: Remove_def sample_defs)
  have r2: "Remove sample_engine ''a'' sample_paused = (None, sample_paused\<lparr>jobs := Map.empty\<rparr>)"
    by (simp add: Remove_def sample_defs)
  show ?thesis
    using b a p r1 r2
      Remove_spec[of sample_active "''b''" sample_engine sample_job sample_paused
        "sample_job\<lparr>Paused := True\<rparr>" every_parse]
      Remove_spec[of sample_active "''a''" sample_engine sample_job sample_active
        sample_job every_parse]
      Remove_spec[of sample_paused "''a''" sample_engine "sample_job\<lparr>Paused := True\<rparr>"
        sample_paused "sample_job\<lparr>Paused := True\<rparr>" every_parse]
    by (simp add: sample_engine_def sample_job_def)
qed

subsection \<open>Pausing an active job\<close>

text \<open>
  C6. \<^verbatim>\<open>Pause\<close> of an active job succeeds, unregisters the job's id from the engine
  and keeps the record: \<^verbatim>\<open>Info\<close> returns it with \<^verbatim>\<open>Paused\<close> set and every other field,
  the plan and the closure among them, as before. \<^verbatim>\<open>Continue\<close> then registers that
  plan and that closure, and when the engine accepts them the engine is as that call
  left it and the job is active again under the new id. Over the engine of robfig/cron the id of the paused job is no longer live.
\<close>

theorem Pause_active:
  "(jobs c name = Some reg \<longrightarrow> \<not> Paused reg \<longrightarrow>
      fst (Pause eng name c) = None \<and>
      cr (snd (Pause eng name c)) = cr_Remove eng (ID reg) (cr c) \<and>
      Info name (snd (Pause eng name c)) = Inr (reg\<lparr>Paused := True\<rparr>) \<and>
      (\<forall>eid e'.
         cr_AddFunc eng (Plan reg) (handler reg) (cr (snd (Pause eng name c))) = (Inr eid, e')
         \<longrightarrow>
         fst (Continue eng name (snd (Pause eng name c))) = None \<and>
         cr (snd (Continue eng name (snd (Pause eng name c)))) = e' \<and>
         Info name (snd (Continue eng name (snd (Pause eng name c)))) =
           Inr (reg\<lparr>ID := eid\<rparr>))) \<and>
   (jobs d name = Some reg' \<longrightarrow> \<not> Paused reg' \<longrightarrow>
      ID reg' \<notin> live_ids (cr (snd (Pause (robfig parse) name d))))"
  by (auto simp: Pause_def Info_def Continue_def robfig_def cron_Remove_def live_ids_def)

theorem Pause_active_witness:
  "jobs sample_active ''a'' = Some sample_job \<and> \<not> Paused sample_job \<and>
   Pause sample_engine ''a'' sample_active = (None, sample_paused) \<and>
   Info ''a'' sample_paused = Inr (sample_job\<lparr>Paused := True\<rparr>) \<and>
   Plan (sample_job\<lparr>Paused := True\<rparr>) = ''@every 5s'' \<and>
   live_ids (cr sample_paused) = {} \<and>
   cr_AddFunc sample_engine (Plan sample_job) (handler sample_job) (cr sample_paused) =
     (Inr 2, \<lparr>entries = [(2, 5, JobHandlerFn ''a'' Succeeded)], nextID = 2, running = False,
        calls = [CallAddFunc ''@every 5s'', CallRemove 1, CallAddFunc ''@every 5s'']\<rparr>) \<and>
   Info ''a'' (snd (Continue sample_engine ''a'' sample_paused)) = Inr (sample_job\<lparr>ID := 2\<rparr>)"
proof -
  have a: "jobs sample_active ''a'' = Some sample_job"
    by (simp add: sample_active_def)
  have np: "\<not> Paused sample_job" and pl: "Plan (sample_job\<lparr>Paused := True\<rparr>) = ''@every 5s''"
    by (simp_all add: sample_job_def)
  have lv: "live_ids (cr sample_paused) = {}"
    by (simp add: sample_defs)
  have add: "cr_AddFunc sample_engine (Plan sample_job) (handler sample_job) (cr sample_paused) =
     (Inr 2, \<lparr>entries = [(2, 5, JobHandlerFn ''a'' Succeeded)], nextID = 2, running = False,
        calls = [CallAddFunc ''@every 5s'', CallRemove 1, CallAddFunc ''@every 5s'']\<rparr>)"
    by (simp add: sample_defs)
  show ?thesis
    using a np pl lv add sample_paused_Pause
      Pause_active[of sample_active "''a''" sample_job sample_engine sample_active sample_job
        every_parse]
    by simp
qed

subsection \<open>The lock gate\<close>

text \<open>
  C7. With a lock manager set whose \<^verbatim>\<open>HasLock\<close> is false, a run of the closure does
  nothing but write the debug line (when \<^verbatim>\<open>infra.DEBUG\<close> is on): no handler is
  invoked, the world is as before, no error line is logged and the closure returns. With
  no lock manager, or with one whose \<^verbatim>\<open>HasLock\<close> is true, the run invokes the handler
  once and returns.
\<close>

theorem jobHandler_lock_gate:
  "(distributeLockManager c = Some l \<longrightarrow> \<not> HasLock lk l \<longrightarrow>
      jobHandler DEBUG lk resolveWithError c name hh w =
        \<lparr>ending = Returned, invoked = [],
         logged = (if DEBUG then [Debugf_no_lock name] else []), world = w\<rparr> \<and>
      \<not> list_ex is_Errorf (logged (jobHandler DEBUG lk resolveWithError c name hh w))) \<and>
   ((distributeLockManager c = None \<or> (distributeLockManager c = Some l \<and> HasLock lk l)) \<longrightarrow>
      invoked (jobHandler DEBUG lk resolveWithError c name hh w) = [hh] \<and>
      world (jobHandler DEBUG lk resolveWithError c name hh w) = snd (resolveWithError hh w) \<and>
      ending (jobHandler DEBUG lk resolveWithError c name hh w) = Returned)"
  by (auto simp: jobHandler_def Let_def recover_def split: prod.splits outcome.splits)

theorem jobHandler_lock_gate_witness:
  "distributeLockManager (DistributeLockManager (Some False) sample_active) = Some False \<and>
   \<not> HasLock sample_lock False \<and>
   jobHandler True sample_lock sample_resolve (DistributeLockManager (Some False) sample_active)
       ''a'' Succeeded 0 =
     \<lparr>ending = Returned, invoked = [], logged = [Debugf_no_lock ''a''], world = 0\<rparr> \<and>
   distributeLockManager (DistributeLockManager (Some True) sample_active) = Some True \<and>
   HasLock sample_lock True \<and>
   jobHandler True sample_lock sample_resolve (DistributeLockManager (Some True) sample_active)
       ''a'' Succeeded 0 =
     \<lparr>ending = Returned, invoked = [Succeeded],
      logged = [Debugf_running ''a'', Debugf_stopped ''a''], world = 1\<rparr>"
proof -
  have d: "distributeLockManager (DistributeLockManager (Some False) sample_active) = Some False"
    "distributeLockManager (DistributeLockManager (Some True) sample_active) = Some True"
    by (simp_all add: DistributeLockManager_def)
  have h: "\<not> HasLock sample_lock False" "HasLock sample_lock True"
    by (simp_all add: sample_lock_def)
  have r: "jobHandler True sample_lock sample_resolve
       (DistributeLockManager (Some True) sample_active) ''a'' Succeeded 0 =
     \<lparr>ending = Returned, invoked = [Succeeded],
      logged = [Debugf_running ''a'', Debugf_stopped ''a''], world = 1\<rparr>"
    by (simp add: jobHandler_def recover_def DistributeLockManager_def sample_lock_def
        sample_resolve_def)
  show ?thesis
    using d h r
      jobHandler_lock_gate[of "DistributeLockManager (Some False) sample_active" False
        sample_lock True sample_resolve "''a''" Succeeded 0]
      jobHandler_lock_gate[of "DistributeLockManager (Some True) sample_active" True
        sample_lock True sample_resolve "''a''" Succeeded 0]
    by simp
qed

subsection \<open>Job.Next\<close>

text \<open>
  The loop fills the slice from the left with the iterates of \<^verbatim>\<open>sc.Next\<close>, and never
  indexes outside it.
\<close>

lemma Next_loop_closed:
  "0 \<le> i \<Longrightarrow> i \<le> nextNum \<Longrightarrow> length results = nat nextNum \<Longrightarrow>
   Next_loop nxt nextNum i lastTs results =
     Ok (take (nat i) results @ map (\<lambda>k. (nxt ^^ Suc k) lastTs) [0..<nat (nextNum - i)])"
proof (induction nxt nextNum i lastTs results rule: Next_loop.induct)
  case (1 nxt nextNum i lastTs results)
  show ?case
  proof (cases "i < nextNum")
    case False
    with "1.prems" have "i = nextNum" by simp
    with "1.prems" show ?thesis by (simp add: Next_loop.simps)
  next
    case True
    let ?t = "nxt lastTs"
    have inb: "nat i < length results" using True "1.prems" by simp
    have step: "Next_loop nxt nextNum i lastTs results =
        Next_loop nxt nextNum (i + 1) ?t (results[nat i := ?t])"
      using True inb "1.prems"(1) by (subst Next_loop.simps) (simp add: Let_def)
    have ih: "Next_loop nxt nextNum (i + 1) ?t (results[nat i := ?t]) =
        Ok (take (nat (i + 1)) (results[nat i := ?t]) @
            map (\<lambda>k. (nxt ^^ Suc k) ?t) [0..<nat (nextNum - (i + 1))])"
      using "1.IH"[OF True refl] True inb "1.prems" by simp
    have n1: "nat (i + 1) = Suc (nat i)" using "1.prems"(1) by simp
    have tk: "take (nat (i + 1)) (results[nat i := ?t]) = take (nat i) results @ [?t]"
      using inb unfolding n1 by (simp add: take_Suc_conv_app_nth)
    have n2: "nat (nextNum - i) = Suc (nat (nextNum - (i + 1)))" using True by simp
    have mp: "map (\<lambda>k. (nxt ^^ Suc k) lastTs) [0..<nat (nextNum - i)] =
        ?t # map (\<lambda>k. (nxt ^^ Suc k) ?t) [0..<nat (nextNum - (i + 1))]"
      unfolding n2
      by (simp add: upt_rec[of 0] map_Suc_upt[symmetric] funpow_swap1 del: upt_Suc)
    show ?thesis unfolding step ih tk mp by simp
  qed
qed

lemma Next_valid:
  assumes "parse (Plan job) = Inr sc" and "0 \<le> n" and "n \<le> maxLen"
  shows "Next maxLen parse sc_next now job n =
    Ok (map (\<lambda>k. (sc_next sc ^^ Suc k) now) [0..<nat n])"
  using assms Next_loop_closed[of 0 n "replicate (nat n) 0" "sc_next sc" now]
  by (simp add: Next_def make_times_def)

lemma funpow_increasing:
  fixes f :: "Time \<Rightarrow> Time"
  assumes "\<forall>t. t < f t"
  shows "i < j \<Longrightarrow> (f ^^ i) x < (f ^^ j) x"
proof (induction j)
  case 0
  then show ?case by simp
next
  case (Suc j)
  have step: "(f ^^ j) x < (f ^^ Suc j) x" using assms by simp
  show ?case
  proof (cases "i = j")
    case True
    then show ?thesis using step by simp
  next
    case False
    with Suc.prems have "i < j" by simp
    then have "(f ^^ i) x < (f ^^ j) x" by (rule Suc.IH)
    with step show ?thesis by linarith
  qed
qed

lemma iterates_ascending:
  fixes f :: "Time \<Rightarrow> Time"
  assumes "\<forall>t. t < f t"
  shows "sorted_wrt (<) (map (\<lambda>k. (f ^^ Suc k) x) [0..<m])"
proof -
  have "sorted_wrt (\<lambda>a b. (f ^^ Suc a) x < (f ^^ Suc b) x) [0..<m]"
    by (rule sorted_wrt_mono_rel[OF _ sorted_wrt_upt])
      (use funpow_increasing[OF assms] in blast)
  then show ?thesis by (simp add: sorted_wrt_map)
qed

lemma iterates_later:
  fixes f :: "Time \<Rightarrow> Time"
  assumes "\<forall>t. t < f t"
  shows "\<forall>t \<in> set (map (\<lambda>k. (f ^^ Suc k) x) [0..<m]). x < t"
proof
  fix t assume "t \<in> set (map (\<lambda>k. (f ^^ Suc k) x) [0..<m])"
  then obtain k where t: "t = (f ^^ Suc k) x" by auto
  have "(f ^^ 0) x < (f ^^ Suc k) x" using assms by (rule funpow_increasing) simp
  then show "x < t" using t by simp
qed

text \<open>
  C8. As stated the claim fails, in two ways. For a plan that parses and a length above
  the limit of \<^verbatim>\<open>make\<close> (here \<open>2 ^ 62\<close>) \<^verbatim>\<open>Next\<close> panics instead of returning a list.
  And the loop stores whatever \<^verbatim>\<open>sc.Next\<close> returns, without a test: for a plan that
  parses and that no time satisfies the three instants returned are the zero \<^verbatim>\<open>Time\<close>
  three times, neither ascending nor later than the clock reading.
\<close>

theorem Next_n_ascending_counterexample:
  "Next maxLen64 every_parse every_next 100 sample_job (2 ^ 62) =
     Panic ''runtime error: makeslice: len out of range'' \<and>
   Next maxLen64 spec_parse spec_next 100 (sample_job\<lparr>Plan := ''0 0 0 30 2 *''\<rparr>) 3 =
     Ok [0, 0, 0]"
  by (simp add: Next_def sample_job_def every_parse_def spec_parse_def make_times_def
      maxLen64_def Next_loop.simps numeral_3_eq_3)

text \<open>
  C8, amended. When the plan parses and \<open>n\<close> is between 0 and the limit of \<^verbatim>\<open>make\<close>,
  \<^verbatim>\<open>Next(n)\<close> returns exactly the \<open>n\<close> instants \<^verbatim>\<open>sc.Next(now)\<close>,
  \<^verbatim>\<open>sc.Next(sc.Next(now))\<close> and so on, \<open>now\<close> being the clock reading; they are in
  strictly ascending order and later than \<open>now\<close> when the schedule's \<^verbatim>\<open>Next\<close> returns
  an instant later than the one it is given. Above the limit \<^verbatim>\<open>Next\<close> panics. When the
  plan does not parse, \<^verbatim>\<open>Next\<close> returns the parser's error.
\<close>

theorem Next_iterates_schedule:
  "(parse (Plan job) = Inr sc \<longrightarrow> 0 \<le> n \<longrightarrow> n \<le> maxLen \<longrightarrow>
      Next maxLen parse sc_next now job n =
        Ok (map (\<lambda>k. (sc_next sc ^^ Suc k) now) [0..<nat n]) \<and>
      int (length (map (\<lambda>k. (sc_next sc ^^ Suc k) now) [0..<nat n])) = n \<and>
      ((\<forall>t. t < sc_next sc t) \<longrightarrow>
         sorted_wrt (<) (map (\<lambda>k. (sc_next sc ^^ Suc k) now) [0..<nat n]) \<and>
         (\<forall>t \<in> set (map (\<lambda>k. (sc_next sc ^^ Suc k) now) [0..<nat n]). now < t))) \<and>
   (parse (Plan job) = Inr sc \<longrightarrow> maxLen < n \<longrightarrow>
      Next maxLen parse sc_next now job n =
        Panic ''runtime error: makeslice: len out of range'') \<and>
   (parse (Plan job) = Inl err \<longrightarrow> Next maxLen parse sc_next now job n = Error err)"
proof (intro conjI impI)
  assume p: "parse (Plan job) = Inr sc" and n: "0 \<le> n" and m: "n \<le> maxLen"
  show "Next maxLen parse sc_next now job n =
      Ok (map (\<lambda>k. (sc_next sc ^^ Suc k) now) [0..<nat n])"
    using p n m by (rule Next_valid)
next
  assume "0 \<le> n"
  then show "int (length (map (\<lambda>k. (sc_next sc ^^ Suc k) now) [0..<nat n])) = n" by simp
next
  assume "\<forall>t. t < sc_next sc t"
  then show "sorted_wrt (<) (map (\<lambda>k. (sc_next sc ^^ Suc k) now) [0..<nat n])"
    by (rule iterates_ascending)
next
  assume "\<forall>t. t < sc_next sc t"
  then show "\<forall>t \<in> set (map (\<lambda>k. (sc_next sc ^^ Suc k) now) [0..<nat n]). now < t"
    by (rule iterates_later)
next
  assume "parse (Plan job) = Inr sc" and "maxLen < n"
  then show "Next maxLen parse sc_next now job n =
      Panic ''runtime error: makeslice: len out of range''"
    by (simp add: Next_def make_times_def)
next
  assume "parse (Plan job) = Inl err"
  then show "Next maxLen parse sc_next now job n = Error err" by (simp add: Next_def)
qed

theorem Next_iterates_schedule_witness:
  "every_parse (Plan sample_job) = Inr 5 \<and> (0::int) \<le> 3 \<and> 3 \<le> maxLen64 \<and>
   (\<forall>t. t < every_next 5 t) \<and>
   Next maxLen64 every_parse every_next 100 sample_job 3 = Ok [105, 110, 115] \<and>
   sorted_wrt (<) [105, 110, 115 :: int] \<and>
   maxLen64 < 2 ^ 62 \<and>
   Next maxLen64 every_parse every_next 100 sample_job (2 ^ 62) =
     Panic ''runtime error: makeslice: len out of range'' \<and>
   every_parse (Plan (sample_job\<lparr>Plan := ''every 5 seconds''\<rparr>)) =
     Inl ''unrecognized descriptor: every 5 seconds'' \<and>
   Next maxLen64 every_parse every_next 100 (sample_job\<lparr>Plan := ''every 5 seconds''\<rparr>) 3 =
     Error ''unrecognized descriptor: every 5 seconds''"
proof -
  have p: "every_parse (Plan sample_job) = Inr 5"
    and q: "every_parse (Plan (sample_job\<lparr>Plan := ''every 5 seconds''\<rparr>)) =
      Inl ''unrecognized descriptor: every 5 seconds''"
    by (simp_all add: sample_job_def every_parse_def)
  have inc: "\<forall>t. t < every_next 5 t" by (simp add: every_next_def)
  have lim: "3 \<le> maxLen64" "maxLen64 < 2 ^ 62" by (simp_all add: maxLen64_def)
  have its: "map (\<lambda>k. (every_next 5 ^^ Suc k) 100) [0..<nat 3] = [105, 110, 115]"
    by (simp add: every_next_def numeral_3_eq_3)
  show ?thesis
    using p q inc lim
      Next_iterates_schedule[of every_parse sample_job 5 3 maxLen64 every_next 100 "''none''"]
      Next_iterates_schedule[of every_parse sample_job 5 "2 ^ 62" maxLen64 every_next 100
        "''none''"]
      Next_iterates_schedule[of every_parse "sample_job\<lparr>Plan := ''every 5 seconds''\<rparr>" 5 3
        maxLen64 every_next 100 "''unrecognized descriptor: every 5 seconds''"]
    unfolding its by simp
qed

text \<open>
  C9. As stated the claim fails: \<^verbatim>\<open>Next\<close> starts from \<^verbatim>\<open>time.Now()\<close>, so the same job
  and the same \<open>n\<close> give different instants at different clock readings.
\<close>

theorem Next_depends_on_clock_counterexample:
  "Next maxLen64 every_parse every_next 100 sample_job 1 \<noteq>
   Next maxLen64 every_parse every_next 101 sample_job 1"
  by (simp add: Next_def sample_job_def every_parse_def every_next_def make_times_def
      maxLen64_def Next_loop.simps)

text \<open>
  C9, amended. The result of \<^verbatim>\<open>Next\<close> is determined by the plan of the job, \<open>n\<close> and
  the clock reading: two jobs with the same plan give the same result at the same
  reading, whatever their other fields are.
\<close>

theorem Next_plan_and_clock:
  "Plan job1 = Plan job2 \<Longrightarrow>
   Next maxLen parse sc_next now job1 n = Next maxLen parse sc_next now job2 n"
  by (simp add: Next_def)

theorem Next_plan_and_clock_witness:
  "Plan sample_job = Plan (sample_job\<lparr>ID := 7, Name := ''b'', Paused := True\<rparr>) \<and>
   Next maxLen64 every_parse every_next 100 sample_job 3 =
     Next maxLen64 every_parse every_next 100
       (sample_job\<lparr>ID := 7, Name := ''b'', Paused := True\<rparr>) 3"
proof -
  have p: "Plan sample_job = Plan (sample_job\<lparr>ID := 7, Name := ''b'', Paused := True\<rparr>)"
    by simp
  show ?thesis
    using p Next_plan_and_clock[OF p, of maxLen64 every_parse every_next 100 3] by simp
qed

text \<open>
  C10. When the plan parses and \<open>n\<close> is negative, \<^verbatim>\<open>Next(n)\<close> panics in \<^verbatim>\<open>make\<close>: it
  returns neither an error nor a list. \<^verbatim>\<open>Next\<close> returns an error exactly when the plan
  does not parse.
\<close>

theorem Next_negative_panics:
  "(parse (Plan job) = Inr sc \<longrightarrow> n < 0 \<longrightarrow>
      Next maxLen parse sc_next now job n =
        Panic ''runtime error: makeslice: len out of range'') \<and>
   ((\<exists>err. Next maxLen parse sc_next now job n = Error err) =
    (\<exists>err. parse (Plan job) = Inl err))"
proof (intro conjI impI)
  assume "parse (Plan job) = Inr sc" and "n < 0"
  then show "Next maxLen parse sc_next now job n =
      Panic ''runtime error: makeslice: len out of range''"
    by (simp add: Next_def make_times_def)
next
  show "(\<exists>err. Next maxLen parse sc_next now job n = Error err) =
    (\<exists>err. parse (Plan job) = Inl err)"
  proof (cases "parse (Plan job)")
    case (Inl e)
    then show ?thesis by (simp add: Next_def)
  next
    case (Inr sc)
    show ?thesis
    proof (cases "0 \<le> n \<and> n \<le> maxLen")
      case True
      with Inr show ?thesis using Next_valid[of parse job sc n maxLen sc_next now] by simp
    next
      case False
      with Inr show ?thesis by (auto simp: Next_def make_times_def)
    qed
  qed
qed

theorem Next_negative_panics_witness:
  "every_parse (Plan sample_job) = Inr 5 \<and> (-1::int) < 0 \<and>
   Next maxLen64 every_parse every_next 100 sample_job (-1) =
     Panic ''runtime error: makeslice: len out of range'' \<and>
   Next maxLen64 every_parse every_next 100 (sample_job\<lparr>Plan := ''every 5 seconds''\<rparr>) (-1) =
     Error ''unrecognized descriptor: every 5 seconds''"
proof -
  have p: "every_parse (Plan sample_job) = Inr 5"
    by (simp add: sample_job_def every_parse_def)
  have e: "Next maxLen64 every_parse every_next 100
      (sample_job\<lparr>Plan := ''every 5 seconds''\<rparr>) (-1) =
     Error ''unrecognized descriptor: every 5 seconds''"
    by (simp add: Next_def every_parse_def)
  show ?thesis
    using p e Next_negative_panics[of every_parse sample_job 5 "-1" maxLen64 every_next 100]
    by simp
qed

end
